theory Spec2Isabelle
  imports Main
begin

section \<open>The client actor of the IRC server (package irc)\<close>

text \<open>
  The Go program keeps every \<^verbatim>\<open>Client\<close> and \<^verbatim>\<open>Channel\<close> behind a pointer and mutates
  them in place. The model is an explicit store: a client address (\<open>cid\<close>) is looked up in
  the \<open>clients\<close> field of the world, a channel address (\<open>chid\<close>) in \<open>members\<close>.
  Go maps used as sets (\<^verbatim>\<open>ChannelSet\<close>, \<^verbatim>\<open>ClientSet\<close>) are lists; \<^verbatim>\<open>range\<close> over a
  map visits every key once in an order the language leaves open, the model visits the
  list from its head. Channels of the Go runtime (\<^verbatim>\<open>chan string\<close> and the server's
  intake queues) are FIFO lists; a send appends. The capacity of a channel, and with it
  a sender that blocks, is outside the model.
\<close>

subsection \<open>Data\<close>

type_synonym cid = nat
type_synonym chid = nat

datatype error = NilPointerDereference

datatype phase = Registering | Normal

datatype timeout = LOGIN_TIMEOUT | IDLE_TIMEOUT | QUIT_TIMEOUT

datatype callback = connectionTimeout_cb | connectionIdle_cb

text \<open>
  A \<^verbatim>\<open>*time.Timer\<close> made by \<^verbatim>\<open>time.AfterFunc\<close>: \<open>pending\<close> says that the runtime will
  still call \<open>func\<close>. \<^verbatim>\<open>Stop\<close> clears it, \<^verbatim>\<open>Reset\<close> sets it again (also after the timer
  has fired). A nil pointer is \<open>None\<close>.
\<close>

record timer =
  pending :: bool
  duration :: timeout
  func :: callback

definition AfterFunc :: "timeout \<Rightarrow> callback \<Rightarrow> timer" where
  "AfterFunc d f = \<lparr>pending = True, duration = d, func = f\<rparr>"

definition Stop :: "timer \<Rightarrow> timer" where
  "Stop t = t\<lparr>pending := False\<rparr>"

definition Reset :: "timeout \<Rightarrow> timer \<Rightarrow> timer" where
  "Reset d t = t\<lparr>pending := True, duration := d\<rparr>"

datatype tkind = LoginT | IdleT | QuitT

record client =
  channels :: "chid list"
  hasQuit :: bool
  hostname :: string
  idleTimer :: "timer option"
  loginTimer :: "timer option"
  nick :: string
  phase :: phase
  quitTimer :: "timer option"
  realname :: string
  replies :: "string list"
  username :: string

datatype 'm command = QuitCommand string | ParsedCommand 'm

datatype parse_error = NotEnoughArgsError | OtherParseError

text \<open>
  What the client does to its collaborators, in the order it does it: a send on a reply
  queue, a timer call, \<^verbatim>\<open>channel.Quit(client)\<close>, \<^verbatim>\<open>server.clients.Remove\<close> and \<^verbatim>\<open>Add\<close>
  with the key they use, and the end of \<^verbatim>\<open>destroy\<close> (where the source writes its debug
  log line).
\<close>

datatype event =
    Send cid string
  | TimerStop cid tkind
  | TimerAfterFunc cid tkind
  | TimerReset cid tkind
  | ChannelQuit chid cid
  | RegistryRemove cid string
  | RegistryAdd cid string
  | Destroyed cid

record 'm world =
  clients :: "cid \<Rightarrow> client"
  members :: "chid \<Rightarrow> cid list"
  registry :: "string \<rightharpoonup> cid"
  commands :: "(cid \<times> 'm command) list"
  idle :: "cid list"
  hostnames :: "(cid \<times> string) list"
  initPhase :: phase
  trace :: "event list"

text \<open>
  The functions and constants of the package that the client code calls and that are
  declared elsewhere: the end marker, the reply formatters, the parser and the resolver. They are
  parameters of the model; nothing is assumed about them.
\<close>

record 'm ext =
  EOF :: string
  RplError :: "string \<Rightarrow> string"
  RplQuit :: "client \<Rightarrow> string \<Rightarrow> string"
  RplNick :: "client \<Rightarrow> string \<Rightarrow> string"
  RplPing :: "client \<Rightarrow> string"
  ErrNeedMoreParamsText :: "client \<Rightarrow> string \<Rightarrow> string"
  ParseCommand :: "string \<Rightarrow> parse_error + 'm command"
  LookupHostname :: "string \<Rightarrow> string"

subsection \<open>Store access\<close>

definition upd :: "cid \<Rightarrow> (client \<Rightarrow> client) \<Rightarrow> 'm world \<Rightarrow> 'm world" where
  "upd c f w = w\<lparr>clients := (clients w)(c := f (clients w c))\<rparr>"

definition emit :: "event \<Rightarrow> 'm world \<Rightarrow> 'm world" where
  "emit e w = w\<lparr>trace := trace w @ [e]\<rparr>"

definition timer_of :: "tkind \<Rightarrow> client \<Rightarrow> timer option" where
  "timer_of k cl = (case k of LoginT \<Rightarrow> loginTimer cl | IdleT \<Rightarrow> idleTimer cl | QuitT \<Rightarrow> quitTimer cl)"

definition set_timer :: "tkind \<Rightarrow> timer option \<Rightarrow> client \<Rightarrow> client" where
  "set_timer k t cl = (case k of LoginT \<Rightarrow> cl\<lparr>loginTimer := t\<rparr>
                               | IdleT \<Rightarrow> cl\<lparr>idleTimer := t\<rparr>
                               | QuitT \<Rightarrow> cl\<lparr>quitTimer := t\<rparr>)"

definition is_pending :: "tkind \<Rightarrow> cid \<Rightarrow> 'm world \<Rightarrow> bool" where
  "is_pending k c w = (case timer_of k (clients w c) of None \<Rightarrow> False | Some t \<Rightarrow> pending t)"

subsection \<open>Collaborators\<close>

text \<open>
  Modelled from the spec: the client registry \<^verbatim>\<open>server.clients\<close> (its type and its
  \<^verbatim>\<open>Add\<close> and \<^verbatim>\<open>Remove\<close> are not among the sources). The spec's registry contract is
  \<open>add(client)\<close>, \<open>remove(client)\<close>, keyed by the current nickname.
\<close>

definition registry_Remove :: "cid \<Rightarrow> 'm world \<Rightarrow> 'm world" where
  "registry_Remove c w =
     emit (RegistryRemove c (nick (clients w c)))
       (w\<lparr>registry := (registry w)(nick (clients w c) := None)\<rparr>)"

definition registry_Add :: "cid \<Rightarrow> 'm world \<Rightarrow> 'm world" where
  "registry_Add c w =
     emit (RegistryAdd c (nick (clients w c)))
       (w\<lparr>registry := (registry w)(nick (clients w c) \<mapsto> c)\<rparr>)"

text \<open>
  Modelled from the spec: \<^verbatim>\<open>channel.Quit(client)\<close> (the channel code is not among the sources).
  The spec's channel contract is a departure notice, after which the bookkeeping is
  symmetric again: the channel no longer lists the client and the client no longer
  lists the channel.
\<close>

definition Channel_Quit :: "chid \<Rightarrow> cid \<Rightarrow> 'm world \<Rightarrow> 'm world" where
  "Channel_Quit ch c w =
     emit (ChannelQuit ch c)
       (upd c (\<lambda>cl. cl\<lparr>channels := removeAll ch (channels cl)\<rparr>)
          (w\<lparr>members := (members w)(ch := removeAll c (members w ch))\<rparr>))"

subsection \<open>The server goroutine's entry points\<close>

definition Reply :: "cid \<Rightarrow> string \<Rightarrow> 'm world \<Rightarrow> 'm world" where
  "Reply c reply w =
     (if hasQuit (clients w c) then w
      else emit (Send c reply) (upd c (\<lambda>cl. cl\<lparr>replies := replies cl @ [reply]\<rparr>) w))"

definition timer_Stop :: "cid \<Rightarrow> tkind \<Rightarrow> timer \<Rightarrow> 'm world \<Rightarrow> 'm world" where
  "timer_Stop c k t w = emit (TimerStop c k) (upd c (set_timer k (Some (Stop t))) w)"

definition timer_AfterFunc :: "cid \<Rightarrow> tkind \<Rightarrow> timeout \<Rightarrow> callback \<Rightarrow> 'm world \<Rightarrow> 'm world" where
  "timer_AfterFunc c k d f w = emit (TimerAfterFunc c k) (upd c (set_timer k (Some (AfterFunc d f))) w)"

definition timer_Reset :: "cid \<Rightarrow> tkind \<Rightarrow> timeout \<Rightarrow> timer \<Rightarrow> 'm world \<Rightarrow> 'm world" where
  "timer_Reset c k d t w = emit (TimerReset c k) (upd c (set_timer k (Some (Reset d t))) w)"

definition Touch :: "cid \<Rightarrow> 'm world \<Rightarrow> 'm world" where
  "Touch c w =
     (let w1 = (case quitTimer (clients w c) of
                  None \<Rightarrow> w
                | Some t \<Rightarrow> timer_Stop c QuitT t w)
      in case idleTimer (clients w1 c) of
           None \<Rightarrow> timer_AfterFunc c IdleT IDLE_TIMEOUT connectionIdle_cb w1
         | Some t \<Rightarrow> timer_Reset c IdleT IDLE_TIMEOUT t w1)"

definition Idle :: "'m ext \<Rightarrow> cid \<Rightarrow> 'm world \<Rightarrow> 'm world" where
  "Idle x c w =
     (let w1 = Reply c (RplPing x (clients w c)) w
      in case quitTimer (clients w1 c) of
           None \<Rightarrow> timer_AfterFunc c QuitT QUIT_TIMEOUT connectionTimeout_cb w1
         | Some t \<Rightarrow> timer_Reset c QuitT QUIT_TIMEOUT t w1)"

definition Register :: "cid \<Rightarrow> 'm world \<Rightarrow> error + 'm world" where
  "Register c w =
     (let w1 = upd c (\<lambda>cl. cl\<lparr>phase := Normal\<rparr>) w
      in case loginTimer (clients w1 c) of
           None \<Rightarrow> Inl NilPointerDereference
         | Some t \<Rightarrow> Inr (Touch c (timer_Stop c LoginT t w1)))"

text \<open>
  The loop of \<^verbatim>\<open>destroy\<close> ranges over \<^verbatim>\<open>client.channels\<close> while \<^verbatim>\<open>channel.Quit\<close> deletes
  from it. Go does not produce a key that was deleted before the loop reached it, so a
  key is visited only if the set still holds it.
\<close>

fun destroy_channels :: "cid \<Rightarrow> chid list \<Rightarrow> 'm world \<Rightarrow> 'm world" where
  "destroy_channels c [] w = w"
| "destroy_channels c (ch # chs) w =
     (if ch \<in> set (channels (clients w c))
      then destroy_channels c chs (Channel_Quit ch c w)
      else destroy_channels c chs w)"

definition destroy :: "cid \<Rightarrow> 'm world \<Rightarrow> error + 'm world" where
  "destroy c w =
     (case loginTimer (clients w c) of
        None \<Rightarrow> Inl NilPointerDereference
      | Some lt \<Rightarrow>
          (let w1 = timer_Stop c LoginT lt w;
               w2 = (case idleTimer (clients w1 c) of
                       None \<Rightarrow> w1 | Some t \<Rightarrow> timer_Stop c IdleT t w1);
               w3 = (case quitTimer (clients w2 c) of
                       None \<Rightarrow> w2 | Some t \<Rightarrow> timer_Stop c QuitT t w2);
               w4 = destroy_channels c (channels (clients w3 c)) w3;
               w5 = registry_Remove c w4
           in Inr (emit (Destroyed c) w5)))"

definition Friends :: "cid \<Rightarrow> 'm world \<Rightarrow> cid list" where
  "Friends c w =
     fold (\<lambda>ch friends. fold List.insert (members w ch) friends)
          (channels (clients w c)) (List.insert c [])"

definition SetNickname :: "cid \<Rightarrow> string \<Rightarrow> 'm world \<Rightarrow> 'm world" where
  "SetNickname c nickname w = registry_Add c (upd c (\<lambda>cl. cl\<lparr>nick := nickname\<rparr>) w)"

definition ChangeNickname :: "'m ext \<Rightarrow> cid \<Rightarrow> string \<Rightarrow> 'm world \<Rightarrow> 'm world" where
  "ChangeNickname x c nickname w =
     (let reply = RplNick x (clients w c) nickname;
          w1 = registry_Remove c w;
          w2 = upd c (\<lambda>cl. cl\<lparr>nick := nickname\<rparr>) w1;
          w3 = registry_Add c w2
      in fold (\<lambda>friend. Reply friend reply) (Friends c w3) w3)"

definition Quit :: "'m ext \<Rightarrow> cid \<Rightarrow> string \<Rightarrow> 'm world \<Rightarrow> error + 'm world" where
  "Quit x c message w =
     (if hasQuit (clients w c) then Inr w
      else
        (let w1 = Reply c (RplError x ''connection closed'') w;
             w2 = Reply c (EOF x) w1;
             w3 = upd c (\<lambda>cl. cl\<lparr>hasQuit := True\<rparr>) w2;
             friends = removeAll c (Friends c w3)
         in case destroy c w3 of
              Inl e \<Rightarrow> Inl e
            | Inr w4 \<Rightarrow>
                (if length friends > 0
                 then Inr (fold (\<lambda>friend. Reply friend (RplQuit x (clients w4 c) message)) friends w4)
                 else Inr w4)))"

subsection \<open>Timer and socket goroutines\<close>

definition connectionIdle :: "cid \<Rightarrow> 'm world \<Rightarrow> 'm world" where
  "connectionIdle c w = w\<lparr>idle := idle w @ [c]\<rparr>"

definition connectionTimeout :: "cid \<Rightarrow> 'm world \<Rightarrow> 'm world" where
  "connectionTimeout c w = w\<lparr>commands := commands w @ [(c, QuitCommand ''connection timeout'')]\<rparr>"

definition connectionClosed :: "cid \<Rightarrow> 'm world \<Rightarrow> 'm world" where
  "connectionClosed c w = w\<lparr>commands := commands w @ [(c, QuitCommand ''connection closed'')]\<rparr>"

text \<open>
  The runtime fires a pending timer: the timer is no longer pending and its function
  runs. A timer that is nil, stopped or already fired does not fire.
\<close>

definition run_callback :: "callback \<Rightarrow> cid \<Rightarrow> 'm world \<Rightarrow> 'm world" where
  "run_callback f c w = (case f of connectionTimeout_cb \<Rightarrow> connectionTimeout c w
                                 | connectionIdle_cb \<Rightarrow> connectionIdle c w)"

definition fire :: "cid \<Rightarrow> tkind \<Rightarrow> 'm world \<Rightarrow> 'm world" where
  "fire c k w =
     (case timer_of k (clients w c) of
        None \<Rightarrow> w
      | Some t \<Rightarrow> if pending t
                  then run_callback (func t) c (upd c (set_timer k (Some (Stop t))) w)
                  else w)"

text \<open>
  \<^verbatim>\<open>NewClient\<close> allocates the client at address \<open>c\<close>. The fields of the struct that no
  claim reads (times, flags, away message, hops) are left out; \<^verbatim>\<open>server.InitPhase()\<close> is
  the field \<open>initPhase\<close> of the world. The three goroutines it starts are the read pump,
  the write pump and the hostname lookup below.
\<close>

definition NewClient :: "cid \<Rightarrow> 'm world \<Rightarrow> 'm world" where
  "NewClient c w =
     w\<lparr>clients := (clients w)(c :=
         \<lparr>channels = [], hasQuit = False, hostname = [], idleTimer = None,
          loginTimer = Some (AfterFunc LOGIN_TIMEOUT connectionTimeout_cb),
          nick = [], phase = initPhase w, quitTimer = None,
          realname = [], replies = [], username = []\<rparr>)\<rparr>"

text \<open>
  Modelled from the spec: \<^verbatim>\<open>client.ErrNeedMoreParams\<close> (its body is not among the
  sources). The spec has it send the client one protocol error line naming the verb;
  outbound text reaches a client through \<^verbatim>\<open>Reply\<close>.
\<close>

definition ErrNeedMoreParams :: "'m ext \<Rightarrow> cid \<Rightarrow> string \<Rightarrow> 'm world \<Rightarrow> 'm world" where
  "ErrNeedMoreParams x c verb w = Reply c (ErrNeedMoreParamsText x (clients w c) verb) w"

text \<open>\<^verbatim>\<open>strings.SplitN(line, " ", 2)[0]\<close>: the line up to its first space, the whole line
  when it has none.\<close>

definition first_part :: "string \<Rightarrow> string" where
  "first_part line = takeWhile (\<lambda>ch. ch \<noteq> CHR '' '') line"

text \<open>
  The read pump's \<^verbatim>\<open>select\<close> receives either an address from \<^verbatim>\<open>client.lookups\<close> or a
  line from the socket. The model takes the receptions as a list, in the order the
  \<^verbatim>\<open>select\<close> made them. One pass of the loop body returns the new value of \<^verbatim>\<open>done\<close>.
  When the list is used up the pump waits in the \<^verbatim>\<open>select\<close>.
\<close>

datatype rd_event = LookupReady string | SocketLine string

datatype pump = Waiting | Exited

definition readCommands_step :: "'m ext \<Rightarrow> cid \<Rightarrow> rd_event \<Rightarrow> 'm world \<Rightarrow> bool \<times> 'm world" where
  "readCommands_step x c ev w =
     (case ev of
        LookupReady ipAddr \<Rightarrow>
          (False, w\<lparr>hostnames := hostnames w @ [(c, LookupHostname x ipAddr)]\<rparr>)
      | SocketLine line \<Rightarrow>
          if line = EOF x then (True, w)
          else (case ParseCommand x line of
                  Inl err \<Rightarrow>
                    (case err of
                       NotEnoughArgsError \<Rightarrow> (False, ErrNeedMoreParams x c (first_part line) w)
                     | OtherParseError \<Rightarrow> (False, w))
                | Inr msg \<Rightarrow> (False, w\<lparr>commands := commands w @ [(c, msg)]\<rparr>)))"

fun readCommands_loop :: "'m ext \<Rightarrow> cid \<Rightarrow> rd_event list \<Rightarrow> 'm world \<Rightarrow> bool \<times> rd_event list \<times> 'm world" where
  "readCommands_loop x c [] w = (False, [], w)"
| "readCommands_loop x c (ev # evs) w =
     (case readCommands_step x c ev w of
        (True, w') \<Rightarrow> (True, evs, w')
      | (False, w') \<Rightarrow> readCommands_loop x c evs w')"

definition readCommands :: "'m ext \<Rightarrow> cid \<Rightarrow> rd_event list \<Rightarrow> 'm world \<Rightarrow> pump \<times> rd_event list \<times> 'm world" where
  "readCommands x c evs w =
     (case readCommands_loop x c evs w of
        (True, rest, w') \<Rightarrow> (Exited, rest, connectionClosed c w')
      | (False, rest, w') \<Rightarrow> (Waiting, rest, w'))"

text \<open>
  The write pump ranges over \<^verbatim>\<open>client.replies\<close>; the model gives it the items of the
  queue in the order they were sent. The socket is the list of calls made on it.
  Whether \<^verbatim>\<open>socket.Write\<close> fails is the socket's business: \<open>wfail\<close> decides it from
  the calls so far and the line. When the items are used up the pump waits on the queue
  (the client code never closes it).
\<close>

datatype sock_event = SockWrite string bool | SockClose



definition written :: "sock_event list \<Rightarrow> string list" where
  "written sock = concat (map (\<lambda>e. case e of SockWrite l _ \<Rightarrow> [l] | SockClose \<Rightarrow> []) sock)"

definition failures :: "sock_event list \<Rightarrow> nat" where
  "failures sock = length (filter (\<lambda>e. case e of SockWrite _ b \<Rightarrow> b | SockClose \<Rightarrow> False) sock)"

subsection \<open>Runs of the server goroutine and the timers\<close>

text \<open>
  A run is a sequence of calls of the entry points above and of timer firings, on any
  clients, each one complete before the next starts. A nil dereference ends the run.
\<close>

datatype op =
    OTouch cid
  | OIdle cid
  | ORegister cid
  | OQuit cid string
  | OReply cid string
  | OSetNickname cid string
  | OChangeNickname cid string
  | OFire cid tkind

fun op_client :: "op \<Rightarrow> cid" where
  "op_client (OTouch c) = c"
| "op_client (OIdle c) = c"
| "op_client (ORegister c) = c"
| "op_client (OQuit c m) = c"
| "op_client (OReply c r) = c"
| "op_client (OSetNickname c n) = c"
| "op_client (OChangeNickname c n) = c"
| "op_client (OFire c k) = c"

fun exec :: "'m ext \<Rightarrow> op \<Rightarrow> 'm world \<Rightarrow> error + 'm world" where
  "exec x (OTouch c) w = Inr (Touch c w)"
| "exec x (OIdle c) w = Inr (Idle x c w)"
| "exec x (ORegister c) w = Register c w"
| "exec x (OQuit c m) w = Quit x c m w"
| "exec x (OReply c r) w = Inr (Reply c r w)"
| "exec x (OSetNickname c n) w = Inr (SetNickname c n w)"
| "exec x (OChangeNickname c n) w = Inr (ChangeNickname x c n w)"
| "exec x (OFire c k) w = Inr (fire c k w)"

fun run :: "'m ext \<Rightarrow> op list \<Rightarrow> 'm world \<Rightarrow> error + 'm world" where
  "run x [] w = Inr w"
| "run x (a # as) w = (case exec x a w of Inl e \<Rightarrow> Inl e | Inr w' \<Rightarrow> run x as w')"

definition destroy_count :: "cid \<Rightarrow> 'm world \<Rightarrow> nat" where
  "destroy_count c w = count_list (trace w) (Destroyed c)"

subsection \<open>A small server for concrete runs\<close>

definition ext0 :: "string ext" where
  "ext0 = \<lparr>EOF = [],
           RplError = (\<lambda>m. ''ERROR :'' @ m),
           RplQuit = (\<lambda>cl m. nick cl @ '' QUIT :'' @ m),
           RplNick = (\<lambda>cl n. nick cl @ '' NICK '' @ n),
           RplPing = (\<lambda>cl. ''PING''),
           ErrNeedMoreParamsText = (\<lambda>cl verb. verb @ '' :Not enough parameters''),
           ParseCommand = (\<lambda>line. if line = ''NICK'' then Inl NotEnoughArgsError
                                  else if line = ''?'' then Inl OtherParseError
                                  else Inr (ParsedCommand line)),
           LookupHostname = (\<lambda>ip. ip)\<rparr>"

definition world0 :: "string world" where
  "world0 = \<lparr>clients = (\<lambda>_. \<lparr>channels = [], hasQuit = False, hostname = [], idleTimer = None,
                                loginTimer = None, nick = [], phase = Registering,
                                quitTimer = None, realname = [], replies = [], username = []\<rparr>),
             members = (\<lambda>_. []), registry = Map.empty, commands = [], idle = [],
             hostnames = [], initPhase = Registering, trace = []\<rparr>"

text \<open>Two connected clients, \<open>alice\<close> at address 0 and \<open>bob\<close> at address 1, both in
  channel 7.\<close>

definition world1 :: "string world" where
  "world1 =
     (upd 0 (\<lambda>cl. cl\<lparr>channels := [7]\<rparr>)
       (upd (Suc 0) (\<lambda>cl. cl\<lparr>channels := [7]\<rparr>)
         (SetNickname 0 ''alice'' (SetNickname (Suc 0) ''bob''
            (NewClient 0 (NewClient (Suc 0) world0))))))
     \<lparr>members := (\<lambda>_. [])(7 := [0, Suc 0]), trace := []\<rparr>"

text \<open>The timer calls of \<^verbatim>\<open>destroy\<close>, in the order it makes them.\<close>

definition stop_events :: "cid \<Rightarrow> client \<Rightarrow> event list" where
  "stop_events c cl =
     TimerStop c LoginT
       # (case idleTimer cl of None \<Rightarrow> [] | Some _ \<Rightarrow> [TimerStop c IdleT])
       @ (case quitTimer cl of None \<Rightarrow> [] | Some _ \<Rightarrow> [TimerStop c QuitT])"

text \<open>The first three statements of \<^verbatim>\<open>Quit\<close> past its guard: the two replies and the
  assignment of \<^verbatim>\<open>hasQuit\<close>.\<close>

definition quit_prep :: "'m ext \<Rightarrow> cid \<Rightarrow> 'm world \<Rightarrow> 'm world" where
  "quit_prep x c w =
     upd c (\<lambda>cl. cl\<lparr>hasQuit := True\<rparr>)
       (Reply c (EOF x) (Reply c (RplError x ''connection closed'') w))"

text \<open>
  The functions the three timers of a client are made with: \<^verbatim>\<open>connectionTimeout\<close> for
  the login timer (in \<^verbatim>\<open>NewClient\<close>) and the quit timer (in \<^verbatim>\<open>Idle\<close>),
  \<^verbatim>\<open>connectionIdle\<close> for the idle timer (in \<^verbatim>\<open>Touch\<close>).
\<close>

definition has_func :: "callback \<Rightarrow> timer option \<Rightarrow> bool" where
  "has_func f t = (case t of None \<Rightarrow> True | Some tm \<Rightarrow> func tm = f)"

definition timers_wf :: "client \<Rightarrow> bool" where
  "timers_wf cl =
     (has_func connectionTimeout_cb (loginTimer cl)
      \<and> has_func connectionIdle_cb (idleTimer cl)
      \<and> has_func connectionTimeout_cb (quitTimer cl))"

text \<open>The commands the parser makes of a list of receptions, tagged with the client.\<close>

definition parsed_commands :: "'m ext \<Rightarrow> cid \<Rightarrow> rd_event list \<Rightarrow> (cid \<times> 'm command) list" where
  "parsed_commands x c evs =
     concat (map (\<lambda>ev. case ev of
                          LookupReady ip \<Rightarrow> []
                        | SocketLine line \<Rightarrow>
                            (case ParseCommand x line of Inl e \<Rightarrow> [] | Inr msg \<Rightarrow> [(c, msg)])) evs)"

text \<open>At most one of the idle timer and the quit timer of a client is pending.\<close>

definition timer_inv :: "cid \<Rightarrow> 'm world \<Rightarrow> bool" where
  "timer_inv c w = (\<not> (is_pending IdleT c w \<and> is_pending QuitT c w))"

section \<open>Basic facts\<close>

lemma clients_upd [simp]: "clients (upd c f w) = (clients w)(c := f (clients w c))"
  and members_upd [simp]: "members (upd c f w) = members w"
  and registry_upd [simp]: "registry (upd c f w) = registry w"
  and commands_upd [simp]: "commands (upd c f w) = commands w"
  and idle_upd [simp]: "idle (upd c f w) = idle w"
  and hostnames_upd [simp]: "hostnames (upd c f w) = hostnames w"
  and initPhase_upd [simp]: "initPhase (upd c f w) = initPhase w"
  and trace_upd [simp]: "trace (upd c f w) = trace w"
  by (simp_all add: upd_def)

lemma clients_emit [simp]: "clients (emit e w) = clients w"
  and members_emit [simp]: "members (emit e w) = members w"
  and registry_emit [simp]: "registry (emit e w) = registry w"
  and commands_emit [simp]: "commands (emit e w) = commands w"
  and idle_emit [simp]: "idle (emit e w) = idle w"
  and hostnames_emit [simp]: "hostnames (emit e w) = hostnames w"
  and initPhase_emit [simp]: "initPhase (emit e w) = initPhase w"
  and trace_emit [simp]: "trace (emit e w) = trace w @ [e]"
  by (simp_all add: emit_def)

lemma set_fold_insert: "set (fold List.insert ys xs) = set ys \<union> set xs"
  by (induction ys arbitrary: xs) auto

lemma distinct_fold_insert: "distinct xs \<Longrightarrow> distinct (fold List.insert ys xs)"
  by (induction ys arbitrary: xs) auto

lemma set_fold_members:
  "set (fold (\<lambda>ch friends. fold List.insert (m ch) friends) chs acc)
     = set acc \<union> (\<Union>ch\<in>set chs. set (m ch))"
  by (induction chs arbitrary: acc) (auto simp: set_fold_insert)

lemma distinct_fold_members:
  "distinct acc \<Longrightarrow> distinct (fold (\<lambda>ch friends. fold List.insert (m ch) friends) chs acc)"
  by (induction chs arbitrary: acc) (auto simp: distinct_fold_insert)


lemma distinct_Friends: "distinct (Friends c w)"
  by (simp add: Friends_def distinct_fold_members)

lemma Reply_fields [simp]:
  "members (Reply f r w) = members w"
  "registry (Reply f r w) = registry w"
  "commands (Reply f r w) = commands w"
  "idle (Reply f r w) = idle w"
  "hostnames (Reply f r w) = hostnames w"
  "initPhase (Reply f r w) = initPhase w"
  by (simp_all add: Reply_def)

lemma Reply_clients:
  "clients (Reply f r w) c =
     (if c = f \<and> \<not> hasQuit (clients w c)
      then (clients w c)\<lparr>replies := replies (clients w c) @ [r]\<rparr>
      else clients w c)"
  by (simp add: Reply_def)

lemma Reply_trace:
  "trace (Reply f r w) = trace w @ (if hasQuit (clients w f) then [] else [Send f r])"
  by (simp add: Reply_def)

lemma Reply_hasQuit [simp]: "hasQuit (clients (Reply f r w) c) = hasQuit (clients w c)"
  by (simp add: Reply_clients)

lemma fold_Reply_fields [simp]:
  "members (fold (\<lambda>f. Reply f r) fs w) = members w"
  "registry (fold (\<lambda>f. Reply f r) fs w) = registry w"
  "commands (fold (\<lambda>f. Reply f r) fs w) = commands w"
  "idle (fold (\<lambda>f. Reply f r) fs w) = idle w"
  "hostnames (fold (\<lambda>f. Reply f r) fs w) = hostnames w"
  "initPhase (fold (\<lambda>f. Reply f r) fs w) = initPhase w"
  by (induction fs arbitrary: w; simp)+

lemma fold_Reply_hasQuit [simp]:
  "hasQuit (clients (fold (\<lambda>f. Reply f r) fs w) c) = hasQuit (clients w c)"
  by (induction fs arbitrary: w) simp_all

lemma fold_Reply_notin:
  "c \<notin> set fs \<Longrightarrow> clients (fold (\<lambda>f. Reply f r) fs w) c = clients w c"
  by (induction fs arbitrary: w) (simp_all add: Reply_clients)

lemma fold_Reply_quit:
  "hasQuit (clients w c) \<Longrightarrow> clients (fold (\<lambda>f. Reply f r) fs w) c = clients w c"
  by (induction fs arbitrary: w) (simp_all add: Reply_clients)

lemma fold_Reply_clients:
  "distinct fs \<Longrightarrow>
   clients (fold (\<lambda>f. Reply f r) fs w) c =
     (if c \<in> set fs \<and> \<not> hasQuit (clients w c)
      then (clients w c)\<lparr>replies := replies (clients w c) @ [r]\<rparr>
      else clients w c)"
  by (induction fs arbitrary: w) (auto simp: Reply_clients)

lemma fold_Reply_trace:
  "trace (fold (\<lambda>f. Reply f r) fs w)
     = trace w @ map (\<lambda>f. Send f r) (filter (\<lambda>f. \<not> hasQuit (clients w f)) fs)"
  by (induction fs arbitrary: w) (simp_all add: Reply_trace)

lemma Channel_Quit_fields [simp]:
  "registry (Channel_Quit ch c w) = registry w"
  "commands (Channel_Quit ch c w) = commands w"
  "idle (Channel_Quit ch c w) = idle w"
  "hostnames (Channel_Quit ch c w) = hostnames w"
  "initPhase (Channel_Quit ch c w) = initPhase w"
  "trace (Channel_Quit ch c w) = trace w @ [ChannelQuit ch c]"
  "members (Channel_Quit ch c w) = (members w)(ch := removeAll c (members w ch))"
  "clients (Channel_Quit ch c w)
     = (clients w)(c := (clients w c)\<lparr>channels := removeAll ch (channels (clients w c))\<rparr>)"
  by (simp_all add: Channel_Quit_def)

lemma destroy_channels_fields [simp]:
  "registry (destroy_channels c chs w) = registry w"
  "commands (destroy_channels c chs w) = commands w"
  "idle (destroy_channels c chs w) = idle w"
  "hostnames (destroy_channels c chs w) = hostnames w"
  "initPhase (destroy_channels c chs w) = initPhase w"
  by (induction chs arbitrary: w; simp)+

lemma destroy_channels_clients:
  "clients (destroy_channels c chs w) c'
     = (if c' = c
        then (clients w c)\<lparr>channels := filter (\<lambda>ch. ch \<notin> set chs) (channels (clients w c))\<rparr>
        else clients w c')"
proof (induction chs arbitrary: w c')
  case Nil
  show ?case by simp
next
  case (Cons ch chs)
  have eq: "filter (\<lambda>a. a \<notin> set chs) (removeAll ch xs) = filter (\<lambda>a. a \<noteq> ch \<and> a \<notin> set chs) xs" for xs
    by (induction xs) auto
  have eq2: "ch \<notin> set xs \<Longrightarrow> filter (\<lambda>a. a \<notin> set chs) xs = filter (\<lambda>a. a \<noteq> ch \<and> a \<notin> set chs) xs" for xs
    by (induction xs) auto
  show ?case
    by (simp add: Cons.IH eq eq2)
qed



lemma timer_Stop_fields [simp]:
  "members (timer_Stop c k t w) = members w"
  "registry (timer_Stop c k t w) = registry w"
  "commands (timer_Stop c k t w) = commands w"
  "idle (timer_Stop c k t w) = idle w"
  "hostnames (timer_Stop c k t w) = hostnames w"
  "initPhase (timer_Stop c k t w) = initPhase w"
  "trace (timer_Stop c k t w) = trace w @ [TimerStop c k]"
  "clients (timer_Stop c k t w) c' = (if c' = c then set_timer k (Some (Stop t)) (clients w c) else clients w c')"
  by (simp_all add: timer_Stop_def)

lemma timer_AfterFunc_fields [simp]:
  "members (timer_AfterFunc c k d f w) = members w"
  "registry (timer_AfterFunc c k d f w) = registry w"
  "commands (timer_AfterFunc c k d f w) = commands w"
  "idle (timer_AfterFunc c k d f w) = idle w"
  "hostnames (timer_AfterFunc c k d f w) = hostnames w"
  "initPhase (timer_AfterFunc c k d f w) = initPhase w"
  "trace (timer_AfterFunc c k d f w) = trace w @ [TimerAfterFunc c k]"
  "clients (timer_AfterFunc c k d f w) c' = (if c' = c then set_timer k (Some (AfterFunc d f)) (clients w c) else clients w c')"
  by (simp_all add: timer_AfterFunc_def)

lemma timer_Reset_fields [simp]:
  "members (timer_Reset c k d t w) = members w"
  "registry (timer_Reset c k d t w) = registry w"
  "commands (timer_Reset c k d t w) = commands w"
  "idle (timer_Reset c k d t w) = idle w"
  "hostnames (timer_Reset c k d t w) = hostnames w"
  "initPhase (timer_Reset c k d t w) = initPhase w"
  "trace (timer_Reset c k d t w) = trace w @ [TimerReset c k]"
  "clients (timer_Reset c k d t w) c' = (if c' = c then set_timer k (Some (Reset d t)) (clients w c) else clients w c')"
  by (simp_all add: timer_Reset_def)

lemma set_timer_simps [simp]:
  "set_timer LoginT t cl = cl\<lparr>loginTimer := t\<rparr>"
  "set_timer IdleT t cl = cl\<lparr>idleTimer := t\<rparr>"
  "set_timer QuitT t cl = cl\<lparr>quitTimer := t\<rparr>"
  by (simp_all add: set_timer_def)

lemma timer_of_simps [simp]:
  "timer_of LoginT cl = loginTimer cl"
  "timer_of IdleT cl = idleTimer cl"
  "timer_of QuitT cl = quitTimer cl"
  by (simp_all add: timer_of_def)

lemma registry_Remove_fields [simp]:
  "clients (registry_Remove c w) = clients w"
  "members (registry_Remove c w) = members w"
  "registry (registry_Remove c w) = (registry w)(nick (clients w c) := None)"
  "commands (registry_Remove c w) = commands w"
  "idle (registry_Remove c w) = idle w"
  "hostnames (registry_Remove c w) = hostnames w"
  "initPhase (registry_Remove c w) = initPhase w"
  "trace (registry_Remove c w) = trace w @ [RegistryRemove c (nick (clients w c))]"
  by (simp_all add: registry_Remove_def)

lemma registry_Add_fields [simp]:
  "clients (registry_Add c w) = clients w"
  "members (registry_Add c w) = members w"
  "registry (registry_Add c w) = (registry w)(nick (clients w c) \<mapsto> c)"
  "commands (registry_Add c w) = commands w"
  "idle (registry_Add c w) = idle w"
  "hostnames (registry_Add c w) = hostnames w"
  "initPhase (registry_Add c w) = initPhase w"
  "trace (registry_Add c w) = trace w @ [RegistryAdd c (nick (clients w c))]"
  by (simp_all add: registry_Add_def)

lemma destroy_None: "loginTimer (clients w c) = None \<Longrightarrow> destroy c w = Inl NilPointerDereference"
  by (simp add: destroy_def)

lemma destroy_Some: "loginTimer (clients w c) = Some lt \<Longrightarrow> \<exists>w'. destroy c w = Inr w'"
  by (simp add: destroy_def Let_def)

lemma destroy_other:
  "destroy c w = Inr w' \<Longrightarrow> c' \<noteq> c \<Longrightarrow> clients w' c' = clients w c'"
  by (auto simp: destroy_def Let_def destroy_channels_clients split: option.splits)

lemma destroy_self:
  "destroy c w = Inr w' \<Longrightarrow>
   clients w' c = (clients w c)\<lparr>channels := [],
        idleTimer := map_option Stop (idleTimer (clients w c)),
        loginTimer := map_option Stop (loginTimer (clients w c)),
        quitTimer := map_option Stop (quitTimer (clients w c))\<rparr>"
  by (auto simp: destroy_def Let_def destroy_channels_clients split: option.splits)

lemma destroy_fields:
  "destroy c w = Inr w' \<Longrightarrow>
     registry w' = (registry w)(nick (clients w c) := None)
   \<and> commands w' = commands w \<and> idle w' = idle w \<and> hostnames w' = hostnames w
   \<and> initPhase w' = initPhase w"
  by (auto simp: destroy_def Let_def destroy_channels_clients split: option.splits)



lemma Friends_cong:
  "members w' = members w \<Longrightarrow> channels (clients w' c) = channels (clients w c) \<Longrightarrow>
   Friends c w' = Friends c w"
  by (simp add: Friends_def)

lemma Quit_hasQuit: "hasQuit (clients w c) \<Longrightarrow> Quit x c message w = Inr w"
  by (simp add: Quit_def)

lemma Quit_first:
  "\<not> hasQuit (clients w c) \<Longrightarrow>
   Quit x c message w =
     (case destroy c (quit_prep x c w) of
        Inl e \<Rightarrow> Inl e
      | Inr w4 \<Rightarrow> Inr (fold (\<lambda>friend. Reply friend (RplQuit x (clients w4 c) message))
                        (removeAll c (Friends c w)) w4))"
proof -
  assume nq: "\<not> hasQuit (clients w c)"
  have fr: "Friends c (quit_prep x c w) = Friends c w"
    by (rule Friends_cong) (simp_all add: quit_prep_def Reply_clients)
  show ?thesis
    using nq by (cases "removeAll c (Friends c w)")
      (auto simp: Quit_def Let_def fr [unfolded quit_prep_def] quit_prep_def split: sum.splits)
qed

lemma quit_prep_fields:
  "\<not> hasQuit (clients w c) \<Longrightarrow>
     clients (quit_prep x c w) c' =
       (if c' = c then (clients w c)\<lparr>hasQuit := True,
                          replies := replies (clients w c) @ [RplError x ''connection closed'', EOF x]\<rparr>
        else clients w c')"
  "members (quit_prep x c w) = members w"
  "registry (quit_prep x c w) = registry w"
  "commands (quit_prep x c w) = commands w"
  "idle (quit_prep x c w) = idle w"
  "hostnames (quit_prep x c w) = hostnames w"
  "initPhase (quit_prep x c w) = initPhase w"
  "\<not> hasQuit (clients w c) \<Longrightarrow>
     trace (quit_prep x c w) = trace w @ [Send c (RplError x ''connection closed''), Send c (EOF x)]"
  by (simp_all add: quit_prep_def Reply_clients Reply_trace)


lemma world1_simps:
  "hasQuit (clients world1 c) = False"
  "loginTimer (clients world1 0) = Some (AfterFunc LOGIN_TIMEOUT connectionTimeout_cb)"
  "loginTimer (clients world1 (Suc 0)) = Some (AfterFunc LOGIN_TIMEOUT connectionTimeout_cb)"
  "channels (clients world1 0) = [7]"
  "channels (clients world1 (Suc 0)) = [7]"
  "nick (clients world1 0) = ''alice''"
  "nick (clients world1 (Suc 0)) = ''bob''"
  "replies (clients world1 c) = []"
  "idleTimer (clients world1 c) = None"
  "quitTimer (clients world1 c) = None"
  "members world1 7 = [0, Suc 0]"
  "registry world1 ''alice'' = Some 0"
  "registry world1 ''bob'' = Some (Suc 0)"
  "trace world1 = []"
  "commands world1 = []"
  by (simp_all add: world1_def world0_def NewClient_def SetNickname_def)

lemma count_Destroyed_map_Send [simp]:
  "count_list (map (\<lambda>f. Send f r) fs) (Destroyed c) = 0"
  by (induction fs) simp_all

lemma count_Destroyed_map_ChannelQuit [simp]:
  "count_list (map (\<lambda>ch. ChannelQuit ch c') chs) (Destroyed c) = 0"
  by (induction chs) simp_all

lemma count_Destroyed_stop_events [simp]:
  "count_list (stop_events c' cl) (Destroyed c) = 0"
  by (simp add: stop_events_def split: option.splits)

lemma ChangeNickname_fields:
  "members (ChangeNickname x c n w) = members w"
  "registry (ChangeNickname x c n w) = ((registry w)(nick (clients w c) := None))(n \<mapsto> c)"
  "commands (ChangeNickname x c n w) = commands w"
  "idle (ChangeNickname x c n w) = idle w"
  "hostnames (ChangeNickname x c n w) = hostnames w"
  "initPhase (ChangeNickname x c n w) = initPhase w"
  by (simp_all add: ChangeNickname_def Let_def)

lemma ChangeNickname_Friends:
  "Friends c (registry_Add c (upd c (\<lambda>cl. cl\<lparr>nick := n\<rparr>) (registry_Remove c w))) = Friends c w"
  by (rule Friends_cong) simp_all

lemma ChangeNickname_clients:
  "clients (ChangeNickname x c n w) f =
     (if f \<in> set (Friends c w) \<and> \<not> hasQuit (clients w f)
      then (clients w f)\<lparr>nick := (if f = c then n else nick (clients w f)),
                          replies := replies (clients w f) @ [RplNick x (clients w c) n]\<rparr>
      else (clients w f)\<lparr>nick := (if f = c then n else nick (clients w f))\<rparr>)"
  by (simp add: ChangeNickname_def Let_def ChangeNickname_Friends fold_Reply_clients distinct_Friends)

lemma ChangeNickname_trace:
  "trace (ChangeNickname x c n w) = trace w
       @ [RegistryRemove c (nick (clients w c)), RegistryAdd c n]
       @ map (\<lambda>f. Send f (RplNick x (clients w c) n))
             (filter (\<lambda>f. \<not> hasQuit (clients w f)) (Friends c w))"
proof -
  have "filter (\<lambda>f. \<not> hasQuit (if f = c then clients w c\<lparr>nick := n\<rparr> else clients w f)) fs
          = filter (\<lambda>f. \<not> hasQuit (clients w f)) fs" for fs
    by (rule filter_cong) auto
  then show ?thesis
    by (simp add: ChangeNickname_def Let_def ChangeNickname_Friends fold_Reply_trace)
qed

lemma Touch_clients:
  "clients (Touch c w) c' =
     (if c' = c
      then (clients w c)\<lparr>idleTimer := Some (case idleTimer (clients w c) of
                                              None \<Rightarrow> AfterFunc IDLE_TIMEOUT connectionIdle_cb
                                            | Some t \<Rightarrow> Reset IDLE_TIMEOUT t),
                          quitTimer := map_option Stop (quitTimer (clients w c))\<rparr>
      else clients w c')"
  by (auto simp: Touch_def Let_def split: option.splits)

lemma Touch_fields [simp]:
  "members (Touch c w) = members w"
  "registry (Touch c w) = registry w"
  "commands (Touch c w) = commands w"
  "idle (Touch c w) = idle w"
  "hostnames (Touch c w) = hostnames w"
  "initPhase (Touch c w) = initPhase w"
  by (auto simp: Touch_def Let_def split: option.splits)

lemma Touch_trace:
  "trace (Touch c w) = trace w
     @ (case quitTimer (clients w c) of None \<Rightarrow> [] | Some _ \<Rightarrow> [TimerStop c QuitT])
     @ (case idleTimer (clients w c) of None \<Rightarrow> [TimerAfterFunc c IdleT] | Some _ \<Rightarrow> [TimerReset c IdleT])"
  by (auto simp: Touch_def Let_def split: option.splits)

lemma Idle_clients:
  "clients (Idle x c w) c' =
     (if c' = c
      then (clients w c)\<lparr>quitTimer := Some (case quitTimer (clients w c) of
                                              None \<Rightarrow> AfterFunc QUIT_TIMEOUT connectionTimeout_cb
                                            | Some t \<Rightarrow> Reset QUIT_TIMEOUT t),
                          replies := replies (clients w c)
                             @ (if hasQuit (clients w c) then [] else [RplPing x (clients w c)])\<rparr>
      else clients w c')"
  by (auto simp: Idle_def Let_def Reply_clients split: option.splits)

lemma Idle_fields [simp]:
  "members (Idle x c w) = members w"
  "registry (Idle x c w) = registry w"
  "commands (Idle x c w) = commands w"
  "idle (Idle x c w) = idle w"
  "hostnames (Idle x c w) = hostnames w"
  "initPhase (Idle x c w) = initPhase w"
  by (auto simp: Idle_def Let_def split: option.splits)

lemma Idle_trace:
  "trace (Idle x c w) = trace w
     @ (if hasQuit (clients w c) then [] else [Send c (RplPing x (clients w c))])
     @ (case quitTimer (clients w c) of None \<Rightarrow> [TimerAfterFunc c QuitT] | Some _ \<Rightarrow> [TimerReset c QuitT])"
  by (auto simp: Idle_def Let_def Reply_clients Reply_trace split: option.splits)

lemma Register_None: "loginTimer (clients w c) = None \<Longrightarrow> Register c w = Inl NilPointerDereference"
  by (simp add: Register_def Let_def)

lemma Register_Some:
  "loginTimer (clients w c) = Some lt \<Longrightarrow>
   Register c w = Inr (Touch c (timer_Stop c LoginT lt (upd c (\<lambda>cl. cl\<lparr>phase := Normal\<rparr>) w)))"
  by (simp add: Register_def Let_def)

lemma Register_clients:
  "Register c w = Inr w' \<Longrightarrow>
   clients w' c' =
     (if c' = c
      then (clients w c)\<lparr>idleTimer := Some (case idleTimer (clients w c) of
                                              None \<Rightarrow> AfterFunc IDLE_TIMEOUT connectionIdle_cb
                                            | Some t \<Rightarrow> Reset IDLE_TIMEOUT t),
                          loginTimer := map_option Stop (loginTimer (clients w c)),
                          phase := Normal,
                          quitTimer := map_option Stop (quitTimer (clients w c))\<rparr>
      else clients w c')"
  by (auto simp: Register_def Let_def Touch_clients split: option.splits)

lemma Register_fields:
  "Register c w = Inr w' \<Longrightarrow>
     members w' = members w \<and> registry w' = registry w \<and> commands w' = commands w
   \<and> idle w' = idle w \<and> hostnames w' = hostnames w \<and> initPhase w' = initPhase w"
  by (auto simp: Register_def Let_def split: option.splits)


lemma SetNickname_fields [simp]:
  "clients (SetNickname c n w) c' = (if c' = c then (clients w c)\<lparr>nick := n\<rparr> else clients w c')"
  "members (SetNickname c n w) = members w"
  "registry (SetNickname c n w) = (registry w)(n \<mapsto> c)"
  "commands (SetNickname c n w) = commands w"
  "idle (SetNickname c n w) = idle w"
  "hostnames (SetNickname c n w) = hostnames w"
  "initPhase (SetNickname c n w) = initPhase w"
  "trace (SetNickname c n w) = trace w @ [RegistryAdd c n]"
  by (simp_all add: SetNickname_def)

lemma connection_fields [simp]:
  "clients (connectionTimeout c w) = clients w"
  "members (connectionTimeout c w) = members w"
  "registry (connectionTimeout c w) = registry w"
  "commands (connectionTimeout c w) = commands w @ [(c, QuitCommand ''connection timeout'')]"
  "idle (connectionTimeout c w) = idle w"
  "hostnames (connectionTimeout c w) = hostnames w"
  "initPhase (connectionTimeout c w) = initPhase w"
  "trace (connectionTimeout c w) = trace w"
  "clients (connectionClosed c w) = clients w"
  "members (connectionClosed c w) = members w"
  "registry (connectionClosed c w) = registry w"
  "commands (connectionClosed c w) = commands w @ [(c, QuitCommand ''connection closed'')]"
  "idle (connectionClosed c w) = idle w"
  "hostnames (connectionClosed c w) = hostnames w"
  "initPhase (connectionClosed c w) = initPhase w"
  "trace (connectionClosed c w) = trace w"
  "clients (connectionIdle c w) = clients w"
  "members (connectionIdle c w) = members w"
  "registry (connectionIdle c w) = registry w"
  "commands (connectionIdle c w) = commands w"
  "idle (connectionIdle c w) = idle w @ [c]"
  "hostnames (connectionIdle c w) = hostnames w"
  "initPhase (connectionIdle c w) = initPhase w"
  "trace (connectionIdle c w) = trace w"
  by (simp_all add: connectionTimeout_def connectionClosed_def connectionIdle_def)

lemma fire_clients:
  "clients (fire c k w) c' =
     (if c' = c \<and> is_pending k c w
      then set_timer k (map_option Stop (timer_of k (clients w c))) (clients w c)
      else clients w c')"
  by (cases k) (auto simp: fire_def is_pending_def run_callback_def split: option.splits callback.splits)

lemma fire_fields [simp]:
  "members (fire c k w) = members w"
  "registry (fire c k w) = registry w"
  "hostnames (fire c k w) = hostnames w"
  "initPhase (fire c k w) = initPhase w"
  "trace (fire c k w) = trace w"
  by (auto simp: fire_def run_callback_def split: option.splits callback.splits)

lemma fire_queues:
  "commands (fire c k w) = commands w @
     (case timer_of k (clients w c) of
        None \<Rightarrow> []
      | Some t \<Rightarrow> if pending t \<and> func t = connectionTimeout_cb
                  then [(c, QuitCommand ''connection timeout'')] else [])"
  "idle (fire c k w) = idle w @
     (case timer_of k (clients w c) of
        None \<Rightarrow> []
      | Some t \<Rightarrow> if pending t \<and> func t = connectionIdle_cb then [c] else [])"
  by (auto simp: fire_def run_callback_def split: option.splits callback.splits)

lemma Quit_Inr_loginTimer:
  "Quit x c m w = Inr w' \<Longrightarrow> \<not> hasQuit (clients w c) \<Longrightarrow> loginTimer (clients w c) \<noteq> None"
  by (auto simp: Quit_first quit_prep_fields destroy_def split: sum.splits option.splits)

lemma Quit_clients:
  assumes "Quit x c m w = Inr w'" and "\<not> hasQuit (clients w c)"
  shows "clients w' c' =
     (if c' = c
      then (clients w c)\<lparr>channels := [], hasQuit := True,
             idleTimer := map_option Stop (idleTimer (clients w c)),
             loginTimer := map_option Stop (loginTimer (clients w c)),
             quitTimer := map_option Stop (quitTimer (clients w c)),
             replies := replies (clients w c) @ [RplError x ''connection closed'', EOF x]\<rparr>
      else (clients w c')\<lparr>replies := replies (clients w c')
             @ (if c' \<in> set (Friends c w) \<and> \<not> hasQuit (clients w c')
                then [RplQuit x ((clients w c)\<lparr>channels := [], hasQuit := True,
                        idleTimer := map_option Stop (idleTimer (clients w c)),
                        loginTimer := map_option Stop (loginTimer (clients w c)),
                        quitTimer := map_option Stop (quitTimer (clients w c)),
                        replies := replies (clients w c) @ [RplError x ''connection closed'', EOF x]\<rparr>) m]
                else [])\<rparr>)"
proof -
  from assms obtain w4 where w4: "destroy c (quit_prep x c w) = Inr w4"
    and w': "w' = fold (\<lambda>friend. Reply friend (RplQuit x (clients w4 c) m)) (removeAll c (Friends c w)) w4"
    by (auto simp: Quit_first split: sum.splits)
  have d: "distinct (removeAll c (Friends c w))"
    by (simp add: distinct_removeAll distinct_Friends)
  show ?thesis
  proof (cases "c' = c")
    case True
    then show ?thesis
      by (simp add: w' fold_Reply_notin destroy_self [OF w4] quit_prep_fields assms(2))
  next
    case False
    have s4: "clients w4 c = (clients w c)\<lparr>channels := [], hasQuit := True,
             idleTimer := map_option Stop (idleTimer (clients w c)),
             loginTimer := map_option Stop (loginTimer (clients w c)),
             quitTimer := map_option Stop (quitTimer (clients w c)),
             replies := replies (clients w c) @ [RplError x ''connection closed'', EOF x]\<rparr>"
      by (simp add: destroy_self [OF w4] quit_prep_fields assms(2))
    have o4: "clients w4 c' = clients w c'"
      using False by (simp add: destroy_other [OF w4] quit_prep_fields assms(2))
    show ?thesis
      using False by (simp add: w' fold_Reply_clients d o4 s4)
  qed
qed

lemma Quit_fields:
  assumes "Quit x c m w = Inr w'"
  shows "commands w' = commands w \<and> idle w' = idle w \<and> hostnames w' = hostnames w
       \<and> initPhase w' = initPhase w"
proof (cases "hasQuit (clients w c)")
  case True
  with assms show ?thesis by (simp add: Quit_hasQuit)
next
  case False
  with assms obtain w4 where w4: "destroy c (quit_prep x c w) = Inr w4"
    and w': "w' = fold (\<lambda>friend. Reply friend (RplQuit x (clients w4 c) m)) (removeAll c (Friends c w)) w4"
    by (auto simp: Quit_first split: sum.splits)
  show ?thesis
    using destroy_fields [OF w4] by (simp add: w' quit_prep_fields)
qed


lemma run_append:
  "run x (as @ bs) w = (case run x as w of Inl e \<Rightarrow> Inl e | Inr w' \<Rightarrow> run x bs w')"
proof (induction as arbitrary: w)
  case Nil
  show ?case by simp
next
  case (Cons a as)
  show ?case by (cases "exec x a w") (simp_all add: Cons.IH)
qed


lemma hasQuit_ops [simp]:
  "hasQuit (clients (Touch c w) c') = hasQuit (clients w c')"
  "hasQuit (clients (Idle x c w) c') = hasQuit (clients w c')"
  "hasQuit (clients (ChangeNickname x c n w) c') = hasQuit (clients w c')"
  "hasQuit (clients (fire c k w) c') = hasQuit (clients w c')"
  "hasQuit (clients (SetNickname c n w) c') = hasQuit (clients w c')"
      apply (simp add: Touch_clients)
    apply (simp add: Idle_clients)
   apply (simp add: ChangeNickname_clients)
   apply (cases k; simp add: fire_clients)
  apply simp
  done


lemma destroy_count_ops [simp]:
  "destroy_count c' (Touch c w) = destroy_count c' w"
  "destroy_count c' (Idle x c w) = destroy_count c' w"
  "destroy_count c' (ChangeNickname x c n w) = destroy_count c' w"
  "destroy_count c' (fire c k w) = destroy_count c' w"
  "destroy_count c' (Reply c r w) = destroy_count c' w"
  "destroy_count c' (SetNickname c n w) = destroy_count c' w"
       apply (simp add: destroy_count_def Touch_trace split: option.splits)
      apply (simp add: destroy_count_def Idle_trace split: option.splits)
     apply (simp add: destroy_count_def ChangeNickname_trace)
    apply (simp add: destroy_count_def)
   apply (simp add: destroy_count_def Reply_trace)
  apply (simp add: destroy_count_def)
  done










lemma Quit_Inr_ex:
  "\<not> hasQuit (clients w c) \<Longrightarrow> loginTimer (clients w c) \<noteq> None \<Longrightarrow> \<exists>w'. Quit x c m w = Inr w'"
proof -
  assume nq: "\<not> hasQuit (clients w c)" and lt: "loginTimer (clients w c) \<noteq> None"
  then have "loginTimer (clients (quit_prep x c w) c) \<noteq> None"
    by (simp add: quit_prep_fields)
  then obtain w4 where "destroy c (quit_prep x c w) = Inr w4"
    using destroy_Some by fastforce
  then show ?thesis by (simp add: Quit_first nq)
qed

lemma has_func_simps [simp]:
  "has_func f None"
  "has_func f (Some (AfterFunc d g)) = (g = f)"
  "has_func f (Some (Stop t)) = has_func f (Some t)"
  "has_func f (Some (Reset d t)) = has_func f (Some t)"
  "has_func f (map_option Stop t') = has_func f t'"
  by (cases t'; simp add: has_func_def AfterFunc_def Stop_def Reset_def)+

lemma NewClient_fields [simp]:
  "clients (NewClient c w) c' =
     (if c' = c
      then \<lparr>channels = [], hasQuit = False, hostname = [], idleTimer = None,
            loginTimer = Some (AfterFunc LOGIN_TIMEOUT connectionTimeout_cb),
            nick = [], phase = initPhase w, quitTimer = None,
            realname = [], replies = [], username = []\<rparr>
      else clients w c')"
  "members (NewClient c w) = members w"
  "registry (NewClient c w) = registry w"
  "commands (NewClient c w) = commands w"
  "idle (NewClient c w) = idle w"
  "hostnames (NewClient c w) = hostnames w"
  "initPhase (NewClient c w) = initPhase w"
  "trace (NewClient c w) = trace w"
  by (simp_all add: NewClient_def)

lemma exec_loginTimer:
  assumes "exec x a w = Inr w'"
  shows "loginTimer (clients w' c) = loginTimer (clients w c)
       \<or> loginTimer (clients w' c) = map_option Stop (loginTimer (clients w c))"
proof (cases a)
  case (OQuit c0 m)
  with assms have Q: "Quit x c0 m w = Inr w'" by simp
  show ?thesis
  proof (cases "hasQuit (clients w c0)")
    case True
    with Q show ?thesis by (simp add: Quit_hasQuit)
  next
    case False
    show ?thesis by (cases "c = c0") (simp_all add: Quit_clients [OF Q False])
  qed
next
  case (ORegister c0)
  with assms show ?thesis by (simp add: Register_clients)
next
  case (OTouch c0)
  with assms show ?thesis by (auto simp: Touch_clients)
next
  case (OIdle c0)
  with assms show ?thesis by (auto simp: Idle_clients)
next
  case (OReply c0 r)
  with assms show ?thesis by (auto simp: Reply_clients)
next
  case (OSetNickname c0 n)
  with assms show ?thesis by auto
next
  case (OChangeNickname c0 n)
  with assms show ?thesis by (auto simp: ChangeNickname_clients)
next
  case (OFire c0 k)
  with assms show ?thesis by (cases k) (auto simp: fire_clients)
qed

lemma exec_timers_wf:
  assumes "exec x a w = Inr w'" and wf: "timers_wf (clients w c)"
  shows "timers_wf (clients w' c)"
proof (cases a)
  case (OQuit c0 m)
  with assms have Q: "Quit x c0 m w = Inr w'" by simp
  show ?thesis
  proof (cases "hasQuit (clients w c0)")
    case True
    with Q wf show ?thesis by (simp add: Quit_hasQuit)
  next
    case False
    show ?thesis using wf by (cases "c = c0") (simp_all add: Quit_clients [OF Q False] timers_wf_def)
  qed
next
  case (ORegister c0)
  with assms show ?thesis
    by (cases "c = c0") (auto simp: Register_clients timers_wf_def split: option.splits)
next
  case (OTouch c0)
  with assms show ?thesis
    by (cases "c = c0") (auto simp: Touch_clients timers_wf_def split: option.splits)
next
  case (OIdle c0)
  with assms show ?thesis
    by (cases "c = c0") (auto simp: Idle_clients timers_wf_def split: option.splits)
next
  case (OReply c0 r)
  with assms show ?thesis by (auto simp: Reply_clients timers_wf_def)
next
  case (OSetNickname c0 n)
  with assms show ?thesis by (auto simp: timers_wf_def)
next
  case (OChangeNickname c0 n)
  with assms show ?thesis by (auto simp: ChangeNickname_clients timers_wf_def)
next
  case (OFire c0 k)
  with assms show ?thesis by (cases k) (auto simp: fire_clients timers_wf_def)
qed

lemma run_loginTimer_Some:
  "run x ops w = Inr w' \<Longrightarrow> loginTimer (clients w c) \<noteq> None \<Longrightarrow> loginTimer (clients w' c) \<noteq> None"
proof (induction ops arbitrary: w)
  case Nil
  then show ?case by simp
next
  case (Cons a as)
  from Cons.prems obtain w1 where a: "exec x a w = Inr w1" and as: "run x as w1 = Inr w'"
    by (cases "exec x a w") simp_all
  have "loginTimer (clients w1 c) \<noteq> None"
    using exec_loginTimer [OF a, of c] Cons.prems(2) by auto
  then show ?case by (rule Cons.IH [OF as])
qed

lemma run_timers_wf:
  "run x ops w = Inr w' \<Longrightarrow> timers_wf (clients w c) \<Longrightarrow> timers_wf (clients w' c)"
proof (induction ops arbitrary: w)
  case Nil
  then show ?case by simp
next
  case (Cons a as)
  from Cons.prems obtain w1 where a: "exec x a w = Inr w1" and as: "run x as w1 = Inr w'"
    by (cases "exec x a w") simp_all
  have "timers_wf (clients w1 c)"
    by (rule exec_timers_wf [OF a Cons.prems(2)])
  then show ?case by (rule Cons.IH [OF as])
qed

lemma Register_Inr_ex: "loginTimer (clients w c) \<noteq> None \<Longrightarrow> \<exists>w'. Register c w = Inr w'"
  by (auto simp: Register_def Let_def)

lemma exec_Inr_ex:
  assumes "loginTimer (clients w (op_client a)) \<noteq> None"
  shows "\<exists>w'. exec x a w = Inr w'"
proof (cases a)
  case (OQuit c0 m)
  with assms show ?thesis
    by (cases "hasQuit (clients w c0)") (auto simp: Quit_hasQuit Quit_Inr_ex)
next
  case (ORegister c0)
  with assms show ?thesis by (simp add: Register_Inr_ex)
qed simp_all

lemma written_simps [simp]:
  "written [] = []"
  "written (SockWrite l b # es) = l # written es"
  "written (SockClose # es) = written es"
  "written (es @ fs) = written es @ written fs"
  by (simp_all add: written_def)

lemma failures_simps [simp]:
  "failures [] = 0"
  "failures (SockWrite l b # es) = (if b then Suc (failures es) else failures es)"
  "failures (SockClose # es) = failures es"
  "failures (es @ fs) = failures es + failures fs"
  by (simp_all add: failures_def)



lemma readCommands_step_done:
  "fst (readCommands_step x c ev w) = (ev = SocketLine (EOF x))"
  by (auto simp: readCommands_step_def split: rd_event.splits sum.splits parse_error.splits)

lemma readCommands_step_EOF [simp]:
  "readCommands_step x c (SocketLine (EOF x)) w = (True, w)"
  by (simp add: readCommands_step_def)

lemma readCommands_loop_no_EOF:
  "SocketLine (EOF x) \<notin> set pre \<Longrightarrow>
   readCommands_loop x c (pre @ evs) w
     = readCommands_loop x c evs (snd (snd (readCommands_loop x c pre w)))
   \<and> fst (readCommands_loop x c pre w) = False
   \<and> fst (snd (readCommands_loop x c pre w)) = []"
proof (induction pre arbitrary: w)
  case Nil
  show ?case by simp
next
  case (Cons ev pre)
  obtain d w1 where s: "readCommands_step x c ev w = (d, w1)" by (cases "readCommands_step x c ev w")
  have "d = False"
    using readCommands_step_done [of x c ev w] s Cons.prems by auto
  with s Cons.IH [of w1] Cons.prems show ?case by simp
qed

lemma readCommands_step_world:
  "commands (snd (readCommands_step x c ev w)) =
     commands w @ (case ev of LookupReady ip \<Rightarrow> []
                   | SocketLine line \<Rightarrow>
                       if line = EOF x then []
                       else (case ParseCommand x line of Inl e \<Rightarrow> [] | Inr msg \<Rightarrow> [(c, msg)]))"
  by (auto simp: readCommands_step_def ErrNeedMoreParams_def
      split: rd_event.splits sum.splits parse_error.splits)

lemma readCommands_loop_commands:
  "SocketLine (EOF x) \<notin> set pre \<Longrightarrow>
   commands (snd (snd (readCommands_loop x c pre w))) = commands w @ parsed_commands x c pre"
proof (induction pre arbitrary: w)
  case Nil
  show ?case by (simp add: parsed_commands_def)
next
  case (Cons ev pre)
  obtain d w1 where s: "readCommands_step x c ev w = (d, w1)" by (cases "readCommands_step x c ev w")
  have d: "d = False"
    using readCommands_step_done [of x c ev w] s Cons.prems by auto
  have c1: "commands w1 = commands w @ parsed_commands x c [ev]"
    using readCommands_step_world [of x c ev w] s Cons.prems
    by (auto simp: parsed_commands_def split: rd_event.splits)
  have "commands (snd (snd (readCommands_loop x c pre w1))) = commands w1 @ parsed_commands x c pre"
    using Cons.IH [of w1] Cons.prems by simp
  then show ?case
    using s d c1 by (simp add: parsed_commands_def)
qed

lemma fire_timeout:
  assumes wf: "timers_wf (clients w c)" and k: "k = LoginT \<or> k = QuitT" and p: "is_pending k c w"
  shows "fire c k w = connectionTimeout c (upd c (set_timer k (map_option Stop (timer_of k (clients w c)))) w)"
  using assms
  by (auto simp: fire_def is_pending_def timers_wf_def has_func_def run_callback_def
      split: option.splits)

lemma is_pending_fire: "\<not> is_pending k c (fire c k w)"
  by (cases k) (auto simp: is_pending_def fire_clients Stop_def split: option.splits)

lemma is_pending_Touch [simp]:
  "is_pending IdleT c (Touch c w)"
  "\<not> is_pending QuitT c (Touch c w)"
  by (auto simp: is_pending_def Touch_clients AfterFunc_def Reset_def Stop_def split: option.splits)

lemma is_pending_Idle [simp]:
  "is_pending QuitT c (Idle x c w)"
  "is_pending IdleT c (Idle x c w) = is_pending IdleT c w"
  by (auto simp: is_pending_def Idle_clients AfterFunc_def Reset_def split: option.splits)

lemma fire_not_pending: "\<not> is_pending k c w \<Longrightarrow> fire c k w = w"
  by (auto simp: fire_def is_pending_def split: option.splits)

lemma exec_login_not_pending:
  assumes "exec x a w = Inr w'" and "\<not> is_pending LoginT c w"
  shows "\<not> is_pending LoginT c w'"
  using exec_loginTimer [OF assms(1), of c] assms(2)
  by (auto simp: is_pending_def Stop_def split: option.splits)

lemma run_login_not_pending:
  "run x ops w = Inr w' \<Longrightarrow> \<not> is_pending LoginT c w \<Longrightarrow> \<not> is_pending LoginT c w'"
proof (induction ops arbitrary: w)
  case Nil
  then show ?case by simp
next
  case (Cons a as)
  from Cons.prems obtain w1 where a: "exec x a w = Inr w1" and as: "run x as w1 = Inr w'"
    by (cases "exec x a w") simp_all
  have "\<not> is_pending LoginT c w1"
    by (rule exec_login_not_pending [OF a Cons.prems(2)])
  then show ?case by (rule Cons.IH [OF as])
qed

lemma exec_login_same:
  assumes "exec x a w = Inr w'" and "a \<noteq> ORegister c" and "\<forall>m. a \<noteq> OQuit c m"
    and "a \<noteq> OFire c LoginT"
  shows "loginTimer (clients w' c) = loginTimer (clients w c)"
proof (cases a)
  case (OQuit c0 m)
  with assms have Q: "Quit x c0 m w = Inr w'" and ne: "c \<noteq> c0" by auto
  show ?thesis
  proof (cases "hasQuit (clients w c0)")
    case True
    with Q show ?thesis by (simp add: Quit_hasQuit)
  next
    case False
    show ?thesis using ne by (simp add: Quit_clients [OF Q False])
  qed
next
  case (ORegister c0)
  with assms show ?thesis by (simp add: Register_clients)
next
  case (OTouch c0)
  with assms show ?thesis by (auto simp: Touch_clients)
next
  case (OIdle c0)
  with assms show ?thesis by (auto simp: Idle_clients)
next
  case (OReply c0 r)
  with assms show ?thesis by (auto simp: Reply_clients)
next
  case (OSetNickname c0 n)
  with assms show ?thesis by auto
next
  case (OChangeNickname c0 n)
  with assms show ?thesis by (auto simp: ChangeNickname_clients)
next
  case (OFire c0 k)
  with assms show ?thesis by (cases k) (auto simp: fire_clients)
qed

lemma exec_commands:
  assumes "exec x a w = Inr w'"
  shows "\<exists>cs. commands w' = commands w @ cs"
proof (cases a)
  case (OQuit c0 m)
  with assms show ?thesis using Quit_fields [of x c0 m w w'] by simp
next
  case (ORegister c0)
  with assms show ?thesis using Register_fields [of c0 w w'] by simp
next
  case (OChangeNickname c0 n)
  with assms show ?thesis by (auto simp: ChangeNickname_fields)
next
  case (OFire c0 k)
  with assms show ?thesis by (auto simp: fire_queues)
qed (use assms in auto)

lemma run_commands:
  "run x ops w = Inr w' \<Longrightarrow> \<exists>cs. commands w' = commands w @ cs"
proof (induction ops arbitrary: w)
  case Nil
  then show ?case by simp
next
  case (Cons a as)
  from Cons.prems obtain w1 where a: "exec x a w = Inr w1" and as: "run x as w1 = Inr w'"
    by (cases "exec x a w") simp_all
  from exec_commands [OF a] obtain cs1 where 1: "commands w1 = commands w @ cs1" by blast
  from Cons.IH [OF as] obtain cs2 where 2: "commands w' = commands w1 @ cs2" by blast
  from 1 2 have "commands w' = commands w @ (cs1 @ cs2)" by simp
  then show ?case by blast
qed

lemma run_login_timeout:
  assumes "run x ops w = Inr w1" and "timers_wf (clients w c)" and "is_pending LoginT c w"
    and "ORegister c \<notin> set ops" and "\<forall>m. OQuit c m \<notin> set ops"
  shows "if OFire c LoginT \<in> set ops
         then (c, QuitCommand ''connection timeout'') \<in> set (commands w1) \<and> \<not> is_pending LoginT c w1
         else is_pending LoginT c w1 \<and> timers_wf (clients w1 c)"
  using assms
proof (induction ops arbitrary: w)
  case Nil
  then show ?case by simp
next
  case (Cons a as)
  from Cons.prems(1) obtain w' where a: "exec x a w = Inr w'" and as: "run x as w' = Inr w1"
    by (cases "exec x a w") simp_all
  show ?case
  proof (cases "a = OFire c LoginT")
    case True
    with a have w': "w' = fire c LoginT w" by simp
    have "commands w' = commands w @ [(c, QuitCommand ''connection timeout'')]"
      unfolding w' by (simp add: fire_timeout [OF Cons.prems(2) _ Cons.prems(3)])
    moreover from run_commands [OF as] obtain cs where "commands w1 = commands w' @ cs" by blast
    ultimately have 1: "(c, QuitCommand ''connection timeout'') \<in> set (commands w1)" by simp
    have "\<not> is_pending LoginT c w'" unfolding w' by (rule is_pending_fire)
    then have 2: "\<not> is_pending LoginT c w1" by (rule run_login_not_pending [OF as])
    from True 1 2 show ?thesis by simp
  next
    case False
    have same: "loginTimer (clients w' c) = loginTimer (clients w c)"
      using Cons.prems(4,5) False by (intro exec_login_same [OF a]) auto
    have p: "is_pending LoginT c w'"
      using Cons.prems(3) same by (simp add: is_pending_def)
    have wf: "timers_wf (clients w' c)"
      by (rule exec_timers_wf [OF a Cons.prems(2)])
    have "if OFire c LoginT \<in> set as
         then (c, QuitCommand ''connection timeout'') \<in> set (commands w1) \<and> \<not> is_pending LoginT c w1
         else is_pending LoginT c w1 \<and> timers_wf (clients w1 c)"
      using Cons.prems(4,5) by (intro Cons.IH [OF as wf p]) auto
    with False show ?thesis by auto
  qed
qed

section \<open>Claims\<close>

text \<open>
  Claim C3. \<^verbatim>\<open>Friends()\<close> returns a set without duplicates that holds exactly the client
  itself and every member of every channel in the client's channel set. For a client
  whose channel set is \<open>{a, b}\<close> that is the members of \<open>a\<close>, the members of \<open>b\<close> and the
  client; for a client with no channel it is the client alone.
\<close>

theorem Friends_self_and_members:
  "set (Friends c w) = insert c (\<Union>ch\<in>set (channels (clients w c)). set (members w ch))
   \<and> distinct (Friends c w)
   \<and> set (Friends c (upd c (\<lambda>cl. cl\<lparr>channels := [a, b]\<rparr>) w))
        = insert c (set (members w a) \<union> set (members w b))
   \<and> Friends c (upd c (\<lambda>cl. cl\<lparr>channels := []\<rparr>) w) = [c]"
  by (auto simp add: Friends_def set_fold_members distinct_fold_members set_fold_insert)






text \<open>
  Claim C10. \<^verbatim>\<open>Quit\<close>, and \<^verbatim>\<open>destroy\<close> inside it, never dereferences a nil timer on a
  client made by \<^verbatim>\<open>NewClient\<close>, registered or not. \<^verbatim>\<open>NewClient\<close> always makes the login
  timer and no entry point sets it back to nil, so the unguarded \<^verbatim>\<open>loginTimer.Stop()\<close>
  has a timer to stop; \<^verbatim>\<open>destroy\<close> stops the idle and the quit timer only when they are
  not nil. On the fresh client, whose idle and quit timers are nil, \<^verbatim>\<open>Quit\<close> returns
  normally; after any run of calls and timer firings it still does, and so does every
  other entry point on that client. Without a login timer \<^verbatim>\<open>destroy\<close> would fail.
\<close>

theorem Quit_never_nil:
  "loginTimer (clients (NewClient c w) c) \<noteq> None
   \<and> idleTimer (clients (NewClient c w) c) = None
   \<and> quitTimer (clients (NewClient c w) c) = None
   \<and> (\<exists>w'. Quit x c message (NewClient c w) = Inr w')
   \<and> (\<forall>ops w1. run x ops (NewClient c w) = Inr w1 \<longrightarrow>
         loginTimer (clients w1 c) \<noteq> None
       \<and> (\<exists>w'. Quit x c message w1 = Inr w')
       \<and> (\<exists>w'. destroy c w1 = Inr w')
       \<and> (\<forall>a. op_client a = c \<longrightarrow> (\<exists>w'. exec x a w1 = Inr w')))
   \<and> (\<forall>w0. loginTimer (clients w0 c) = None \<longrightarrow> destroy c (w0::'m world) = Inl NilPointerDereference)"
proof (intro conjI allI impI)
  show "\<exists>w'. Quit x c message (NewClient c w) = Inr w'"
    by (rule Quit_Inr_ex) simp_all
next
  fix ops w1 assume r: "run x ops (NewClient c w) = Inr w1"
  show lt: "loginTimer (clients w1 c) \<noteq> None"
    by (rule run_loginTimer_Some [OF r]) simp
  show "\<exists>w'. Quit x c message w1 = Inr w'"
    using exec_Inr_ex [of w1 "OQuit c message" x] lt by simp
  show "\<exists>w'. destroy c w1 = Inr w'"
    using lt destroy_Some by fastforce
  fix a assume "op_client a = c"
  then show "\<exists>w'. exec x a w1 = Inr w'"
    using exec_Inr_ex [of w1 a x] lt by simp
next
  fix w0 :: "'m world" assume "loginTimer (clients w0 c) = None"
  then show "destroy c w0 = Inl NilPointerDereference" by (rule destroy_None)
qed simp_all

theorem Quit_never_nil_witness:
  "\<exists>w1 w'. run ext0 [ORegister 0, OIdle 0, OTouch 0] (NewClient 0 world0) = Inr w1
         \<and> loginTimer (clients w1 0) \<noteq> None
         \<and> Quit ext0 0 ''bye'' w1 = Inr w'"
proof -
  obtain w1 where r: "run ext0 [ORegister 0, OIdle 0, OTouch 0] (NewClient 0 world0) = Inr w1"
    by (simp add: Register_Some)
  from Quit_never_nil [of 0 world0 ext0 "''bye''"] r show ?thesis by blast
qed




text \<open>
  Claim C5. A timeout ends a connection through the server's command queue only. In
  every state a client made by \<^verbatim>\<open>NewClient\<close> can reach, the login timer and the quit
  timer run \<^verbatim>\<open>connectionTimeout\<close> when they fire: the firing appends one \<^verbatim>\<open>QuitCommand\<close>
  with message "connection timeout", tagged with the client, to \<^verbatim>\<open>server.commands\<close>, and
  apart from the timer no longer being pending nothing else changes: no reply is sent,
  the flag \<^verbatim>\<open>hasQuit\<close>, the registry and the channels are as before, so \<^verbatim>\<open>Quit\<close> has not
  run. When the read pump receives the end marker it leaves its loop, appends one
  \<^verbatim>\<open>QuitCommand\<close> with message "connection closed" after the commands parsed so far, and
  exits without taking any later reception. Before the end marker it has made no such
  command and waits.
\<close>

theorem timeout_and_close_enqueue_quit:
  assumes "run x ops (NewClient c w0) = Inr w"
      and "k = LoginT \<or> k = QuitT"
      and "is_pending k c w"
      and "SocketLine (EOF x) \<notin> set pre"
  shows "connectionTimeout c w = w\<lparr>commands := commands w @ [(c, QuitCommand ''connection timeout'')]\<rparr>
       \<and> fire c k w
            = connectionTimeout c (upd c (set_timer k (map_option Stop (timer_of k (clients w c)))) w)
       \<and> commands (fire c k w) = commands w @ [(c, QuitCommand ''connection timeout'')]
       \<and> trace (fire c k w) = trace w
       \<and> registry (fire c k w) = registry w
       \<and> members (fire c k w) = members w
       \<and> hasQuit (clients (fire c k w) c) = hasQuit (clients w c)
       \<and> replies (clients (fire c k w) c) = replies (clients w c)
       \<and> channels (clients (fire c k w) c) = channels (clients w c)
       \<and> \<not> is_pending k c (fire c k w)
       \<and> readCommands x c (pre @ SocketLine (EOF x) # post) w1
            = (Exited, post, connectionClosed c (snd (snd (readCommands_loop x c pre w1))))
       \<and> commands (connectionClosed c (snd (snd (readCommands_loop x c pre w1))))
            = commands w1 @ parsed_commands x c pre @ [(c, QuitCommand ''connection closed'')]
       \<and> readCommands x c pre w1 = (Waiting, [], snd (snd (readCommands_loop x c pre w1)))
       \<and> commands (snd (snd (readCommands_loop x c pre w1))) = commands w1 @ parsed_commands x c pre"
proof -
  have wf0: "timers_wf (clients (NewClient c w0) c)"
    by (simp add: timers_wf_def)
  have wf: "timers_wf (clients w c)"
    by (rule run_timers_wf [OF assms(1) wf0])
  have f: "fire c k w
            = connectionTimeout c (upd c (set_timer k (map_option Stop (timer_of k (clients w c)))) w)"
    by (rule fire_timeout [OF wf assms(2) assms(3)])
  have cl: "clients (fire c k w) c = set_timer k (map_option Stop (timer_of k (clients w c))) (clients w c)"
    by (simp add: f)
  have fields: "hasQuit (clients (fire c k w) c) = hasQuit (clients w c)"
       "replies (clients (fire c k w) c) = replies (clients w c)"
       "channels (clients (fire c k w) c) = channels (clients w c)"
    unfolding cl by (cases k; simp)+
  obtain d rest w2 where L: "readCommands_loop x c pre w1 = (d, rest, w2)"
    by (cases "readCommands_loop x c pre w1")
  from readCommands_loop_no_EOF [OF assms(4), of c "SocketLine (EOF x) # post" w1] L
  have app: "readCommands_loop x c (pre @ SocketLine (EOF x) # post) w1 = (True, post, w2)"
    and d: "d = False" and rest: "rest = []"
    by simp_all
  have rc: "readCommands x c (pre @ SocketLine (EOF x) # post) w1
            = (Exited, post, connectionClosed c (snd (snd (readCommands_loop x c pre w1))))"
    by (simp add: readCommands_def app L)
  have rw: "readCommands x c pre w1 = (Waiting, [], snd (snd (readCommands_loop x c pre w1)))"
    by (simp add: readCommands_def L d rest)
  have cm: "commands (snd (snd (readCommands_loop x c pre w1))) = commands w1 @ parsed_commands x c pre"
    by (rule readCommands_loop_commands [OF assms(4)])
  show ?thesis
    apply (intro conjI)
                 apply (simp add: connectionTimeout_def)
                apply (rule f)
               apply (simp add: f)
              apply simp
             apply simp
            apply simp
           apply (rule fields(1))
          apply (rule fields(2))
         apply (rule fields(3))
        apply (rule is_pending_fire)
       apply (rule rc)
      apply (simp add: cm)
     apply (rule rw)
    apply (rule cm)
    done
qed

theorem timeout_and_close_enqueue_quit_witness:
  "run ext0 [] (NewClient 0 world0) = Inr (NewClient 0 world0)
   \<and> is_pending LoginT 0 (NewClient 0 world0)
   \<and> SocketLine (EOF ext0) \<notin> set [SocketLine ''JOIN #a'']
   \<and> commands (fire 0 LoginT (NewClient 0 world0)) = [(0, QuitCommand ''connection timeout'')]
   \<and> fst (readCommands ext0 0 ([SocketLine ''JOIN #a''] @ SocketLine (EOF ext0) # [SocketLine ''late'']) world1)
        = Exited
   \<and> commands (snd (snd (readCommands ext0 0
          ([SocketLine ''JOIN #a''] @ SocketLine (EOF ext0) # [SocketLine ''late'']) world1)))
        = [(0, ParsedCommand ''JOIN #a''), (0, QuitCommand ''connection closed'')]"
proof -
  have h1: "run ext0 [] (NewClient 0 world0) = Inr (NewClient 0 world0)" by simp
  have h2: "LoginT = LoginT \<or> LoginT = QuitT" by simp
  have h3: "is_pending LoginT 0 (NewClient 0 world0)"
    by (simp add: is_pending_def AfterFunc_def)
  have h4: "SocketLine (EOF ext0) \<notin> set [SocketLine ''JOIN #a'']"
    by (simp add: ext0_def)
  have c0: "commands (NewClient 0 world0) = []" by (simp add: world0_def)
  have pc: "parsed_commands ext0 0 [SocketLine ''JOIN #a''] = [(0, ParsedCommand ''JOIN #a'')]"
    by (simp add: parsed_commands_def ext0_def)
  note T = timeout_and_close_enqueue_quit [OF h1 h2 h3 h4, of "[SocketLine ''late'']" world1]
  from T have F: "commands (fire 0 LoginT (NewClient 0 world0))
                    = commands (NewClient 0 world0) @ [(0, QuitCommand ''connection timeout'')]"
    by blast
  from T have R: "readCommands ext0 0 ([SocketLine ''JOIN #a''] @ SocketLine (EOF ext0) # [SocketLine ''late'']) world1
       = (Exited, [SocketLine ''late''],
          connectionClosed 0 (snd (snd (readCommands_loop ext0 0 [SocketLine ''JOIN #a''] world1))))"
    by blast
  from T have C: "commands (connectionClosed 0 (snd (snd (readCommands_loop ext0 0 [SocketLine ''JOIN #a''] world1))))
       = commands world1 @ parsed_commands ext0 0 [SocketLine ''JOIN #a''] @ [(0, QuitCommand ''connection closed'')]"
    by blast
  have 1: "commands (fire 0 LoginT (NewClient 0 world0)) = [(0, QuitCommand ''connection timeout'')]"
    unfolding F c0 by simp
  have 2: "fst (readCommands ext0 0 ([SocketLine ''JOIN #a''] @ SocketLine (EOF ext0) # [SocketLine ''late'']) world1)
        = Exited"
    unfolding R by simp
  have 3: "commands (snd (snd (readCommands ext0 0
          ([SocketLine ''JOIN #a''] @ SocketLine (EOF ext0) # [SocketLine ''late'']) world1)))
        = [(0, ParsedCommand ''JOIN #a''), (0, QuitCommand ''connection closed'')]"
    unfolding R snd_conv C pc by (simp add: world1_simps)
  from h1 h3 h4 1 2 3 show ?thesis by blast
qed

text \<open>
  Claim C7, as amended. \<^verbatim>\<open>Touch()\<close> stops the quit timer if there is one and arms the
  idle timer, or resets it, to the idle timeout: after \<^verbatim>\<open>Touch()\<close> the idle timer is
  pending and the quit timer is not. \<^verbatim>\<open>Idle()\<close> sends the client one ping reply (none
  once the client has quit) and arms the quit timer, or resets it, to the quit timeout;
  it does not touch the idle timer. So after \<^verbatim>\<open>Idle()\<close> at most one of the two timers is
  pending exactly when the idle timer was not pending at the call. That is so when
  \<^verbatim>\<open>Idle()\<close> runs right after the idle timer has fired. It is not so when a \<^verbatim>\<open>Touch()\<close>
  comes between the firing, which only puts the client on \<^verbatim>\<open>server.idle\<close>, and the
  server's call of \<^verbatim>\<open>Idle()\<close>: then both timers are pending.
\<close>

theorem Touch_Idle_timers:
  "is_pending IdleT c (Touch c w)
   \<and> \<not> is_pending QuitT c (Touch c w)
   \<and> timer_inv c (Touch c w)
   \<and> map_option duration (idleTimer (clients (Touch c w) c)) = Some IDLE_TIMEOUT
   \<and> loginTimer (clients (Touch c w) c) = loginTimer (clients w c)
   \<and> replies (clients (Idle x c w) c)
        = replies (clients w c) @ (if hasQuit (clients w c) then [] else [RplPing x (clients w c)])
   \<and> is_pending QuitT c (Idle x c w)
   \<and> map_option duration (quitTimer (clients (Idle x c w) c)) = Some QUIT_TIMEOUT
   \<and> idleTimer (clients (Idle x c w) c) = idleTimer (clients w c)
   \<and> timer_inv c (Idle x c w) = (\<not> is_pending IdleT c w)
   \<and> timer_inv c (Idle x c (fire c IdleT w))"
proof (intro conjI)
  show "map_option duration (idleTimer (clients (Touch c w) c)) = Some IDLE_TIMEOUT"
    by (simp add: Touch_clients AfterFunc_def Reset_def split: option.splits)
  show "map_option duration (quitTimer (clients (Idle x c w) c)) = Some QUIT_TIMEOUT"
    by (simp add: Idle_clients AfterFunc_def Reset_def split: option.splits)
  show "timer_inv c (Idle x c (fire c IdleT w))"
    using is_pending_fire [of IdleT c w] by (simp add: timer_inv_def)
qed (simp_all add: timer_inv_def Touch_clients Idle_clients)

text \<open>
  Claim C7, as stated, fails. After \<^verbatim>\<open>Register()\<close> the idle timer fires and puts the
  client on \<^verbatim>\<open>server.idle\<close>; a \<^verbatim>\<open>Touch()\<close> resets the idle timer before the server calls
  \<^verbatim>\<open>Idle()\<close>, which arms the quit timer: the run ends normally with the idle timer and
  the quit timer both pending.
\<close>

theorem both_timers_pending_counterexample:
  "\<not> isl (run ext0 [ORegister 0, OFire 0 IdleT, OTouch 0, OIdle 0] (NewClient 0 world0))
   \<and> idle (projr (run ext0 [ORegister 0, OFire 0 IdleT] (NewClient 0 world0))) = [0]
   \<and> is_pending IdleT 0 (projr (run ext0 [ORegister 0, OFire 0 IdleT, OTouch 0, OIdle 0] (NewClient 0 world0)))
   \<and> is_pending QuitT 0 (projr (run ext0 [ORegister 0, OFire 0 IdleT, OTouch 0, OIdle 0] (NewClient 0 world0)))
   \<and> \<not> timer_inv 0 (projr (run ext0 [ORegister 0, OFire 0 IdleT, OTouch 0, OIdle 0] (NewClient 0 world0)))"
proof -
  let ?w1 = "Touch 0 (timer_Stop 0 LoginT (AfterFunc LOGIN_TIMEOUT connectionTimeout_cb)
                (upd 0 (\<lambda>cl. cl\<lparr>phase := Normal\<rparr>) (NewClient 0 (world0 :: string world))))"
  have R: "Register 0 (NewClient 0 (world0 :: string world)) = Inr ?w1"
    by (rule Register_Some) simp
  have r4: "run ext0 [ORegister 0, OFire 0 IdleT, OTouch 0, OIdle 0] (NewClient 0 world0)
          = Inr (Idle ext0 0 (Touch 0 (fire 0 IdleT ?w1)))"
    by (simp add: R)
  have r2: "run ext0 [ORegister 0, OFire 0 IdleT] (NewClient 0 world0) = Inr (fire 0 IdleT ?w1)"
    by (simp add: R)
  have i: "idle (fire 0 IdleT ?w1) = [0]"
    by (simp add: fire_queues Touch_clients AfterFunc_def world0_def)
  show ?thesis
    unfolding r4 r2 by (simp add: i timer_inv_def)
qed

text \<open>
  Claim C9, as amended. \<^verbatim>\<open>Register()\<close> sets the phase to \<^verbatim>\<open>Normal\<close>, stops the login timer
  and calls \<^verbatim>\<open>Touch()\<close>, after which the idle timer is pending. Nothing arms the login
  timer again: in every later state it is not pending, so it cannot fire and no
  login-timeout quit is queued after \<^verbatim>\<open>Register()\<close>. \<^verbatim>\<open>NewClient\<close> leaves the login timer
  pending. As long as neither \<^verbatim>\<open>Register()\<close> nor \<^verbatim>\<open>Quit()\<close> has run on the client, the
  login timer either is still pending, and its firing appends the client's
  \<^verbatim>\<open>QuitCommand\<close> "connection timeout" to \<^verbatim>\<open>server.commands\<close>, or it has fired and that
  command has been queued.
\<close>

theorem Register_stops_login_timer:
  "(\<forall>w'. Register c w = Inr w' \<longrightarrow>
        (\<exists>lt. loginTimer (clients w c) = Some lt
            \<and> w' = Touch c (timer_Stop c LoginT lt (upd c (\<lambda>cl. cl\<lparr>phase := Normal\<rparr>) w)))
      \<and> phase (clients w' c) = Normal
      \<and> \<not> is_pending LoginT c w'
      \<and> is_pending IdleT c w'
      \<and> (\<forall>ops w''. run x ops w' = Inr w'' \<longrightarrow>
             \<not> is_pending LoginT c w'' \<and> fire c LoginT w'' = w''))
   \<and> is_pending LoginT c (NewClient c w0)
   \<and> (\<forall>ops w1. run x ops (NewClient c w0) = Inr w1
          \<and> ORegister c \<notin> set ops \<and> (\<forall>m. OQuit c m \<notin> set ops) \<longrightarrow>
          (if OFire c LoginT \<in> set ops
           then (c, QuitCommand ''connection timeout'') \<in> set (commands w1)
              \<and> \<not> is_pending LoginT c w1
           else is_pending LoginT c w1
              \<and> commands (fire c LoginT w1)
                   = commands w1 @ [(c, QuitCommand ''connection timeout'')]))"
proof (intro conjI allI impI)
  fix w' assume R: "Register c w = Inr w'"
  then obtain lt where lt: "loginTimer (clients w c) = Some lt"
    by (auto simp: Register_def Let_def split: option.splits)
  with R show "\<exists>lt. loginTimer (clients w c) = Some lt
            \<and> w' = Touch c (timer_Stop c LoginT lt (upd c (\<lambda>cl. cl\<lparr>phase := Normal\<rparr>) w))"
    by (simp add: Register_Some)
  show "phase (clients w' c) = Normal" by (simp add: Register_clients [OF R])
  show np: "\<not> is_pending LoginT c w'"
    by (simp add: Register_clients [OF R] is_pending_def lt Stop_def)
  show "is_pending IdleT c w'"
    by (simp add: Register_clients [OF R] is_pending_def AfterFunc_def Reset_def split: option.splits)
  fix ops w'' assume r: "run x ops w' = Inr w''"
  show np': "\<not> is_pending LoginT c w''" by (rule run_login_not_pending [OF r np])
  show "fire c LoginT w'' = w''" by (rule fire_not_pending [OF np'])
next
  show "is_pending LoginT c (NewClient c w0)"
    by (simp add: is_pending_def AfterFunc_def)
next
  fix ops w1
  assume h: "run x ops (NewClient c w0) = Inr w1
          \<and> ORegister c \<notin> set ops \<and> (\<forall>m. OQuit c m \<notin> set ops)"
  have wf0: "timers_wf (clients (NewClient c w0) c)" by (simp add: timers_wf_def)
  have p0: "is_pending LoginT c (NewClient c w0)" by (simp add: is_pending_def AfterFunc_def)
  from h have L: "if OFire c LoginT \<in> set ops
         then (c, QuitCommand ''connection timeout'') \<in> set (commands w1) \<and> \<not> is_pending LoginT c w1
         else is_pending LoginT c w1 \<and> timers_wf (clients w1 c)"
    by (intro run_login_timeout [OF _ wf0 p0]) auto
  show "if OFire c LoginT \<in> set ops
           then (c, QuitCommand ''connection timeout'') \<in> set (commands w1)
              \<and> \<not> is_pending LoginT c w1
           else is_pending LoginT c w1
              \<and> commands (fire c LoginT w1)
                   = commands w1 @ [(c, QuitCommand ''connection timeout'')]"
  proof (cases "OFire c LoginT \<in> set ops")
    case True
    with L show ?thesis by simp
  next
    case False
    with L have p: "is_pending LoginT c w1" and wf: "timers_wf (clients w1 c)" by simp_all
    have "commands (fire c LoginT w1) = commands w1 @ [(c, QuitCommand ''connection timeout'')]"
      by (simp add: fire_timeout [OF wf _ p])
    with False p show ?thesis by simp
  qed
qed

theorem Register_stops_login_timer_witness:
  "(\<exists>w'. Register 0 (NewClient 0 (world0 :: string world)) = Inr w'
        \<and> phase (clients w' 0) = Normal
        \<and> \<not> is_pending LoginT 0 w'
        \<and> is_pending IdleT 0 w'
        \<and> fire 0 LoginT w' = w')
   \<and> (\<exists>w1. run ext0 [OTouch 0, OFire 0 LoginT] (NewClient 0 world0) = Inr w1
         \<and> (0, QuitCommand ''connection timeout'') \<in> set (commands w1))"
proof -
  note T = Register_stops_login_timer [of 0 "NewClient 0 (world0 :: string world)" ext0 world0]
  obtain w' where R: "Register 0 (NewClient 0 (world0 :: string world)) = Inr w'"
    using Register_Inr_ex [of "NewClient 0 (world0 :: string world)" 0] by auto
  have r0: "run ext0 [] w' = Inr w'" by simp
  from T R r0 have A: "phase (clients w' 0) = Normal \<and> \<not> is_pending LoginT 0 w'
        \<and> is_pending IdleT 0 w' \<and> fire 0 LoginT w' = w'"
    by blast
  obtain w1 where r: "run ext0 [OTouch 0, OFire 0 LoginT] (NewClient 0 world0) = Inr w1"
    by simp
  have h: "ORegister 0 \<notin> set [OTouch 0, OFire 0 LoginT]"
      "\<forall>m. OQuit 0 m \<notin> set [OTouch 0, OFire 0 LoginT]"
      "OFire 0 LoginT \<in> set [OTouch 0, OFire 0 LoginT]"
    by simp_all
  from T have B: "run ext0 [OTouch 0, OFire 0 LoginT] (NewClient 0 world0) = Inr w1
          \<and> ORegister 0 \<notin> set [OTouch 0, OFire 0 LoginT] \<and> (\<forall>m. OQuit 0 m \<notin> set [OTouch 0, OFire 0 LoginT]) \<longrightarrow>
          (if OFire 0 LoginT \<in> set [OTouch 0, OFire 0 LoginT]
           then (0, QuitCommand ''connection timeout'') \<in> set (commands w1)
              \<and> \<not> is_pending LoginT 0 w1
           else is_pending LoginT 0 w1
              \<and> commands (fire 0 LoginT w1)
                   = commands w1 @ [(0, QuitCommand ''connection timeout'')])"
    by blast
  with r h have "(0, QuitCommand ''connection timeout'') \<in> set (commands w1)"
    by (simp only: if_True simp_thms)
  with R A r show ?thesis by blast
qed

text \<open>
  Claim C9, as stated, fails. On a client that never registers, \<^verbatim>\<open>Quit()\<close> (a peer that
  disconnects before the login timeout) runs \<^verbatim>\<open>destroy\<close>, which stops the login timer:
  the run holds no \<^verbatim>\<open>Register()\<close>, yet the login timer is no longer pending, no timeout
  quit has been queued and firing the timer queues none.
\<close>

theorem login_timer_stopped_by_Quit_counterexample:
  "ORegister 0 \<notin> set [OQuit 0 ''bye'']
   \<and> \<not> isl (run ext0 [OQuit 0 ''bye''] (NewClient 0 world0))
   \<and> \<not> is_pending LoginT 0 (projr (run ext0 [OQuit 0 ''bye''] (NewClient 0 world0)))
   \<and> commands (projr (run ext0 [OQuit 0 ''bye''] (NewClient 0 world0))) = []
   \<and> fire 0 LoginT (projr (run ext0 [OQuit 0 ''bye''] (NewClient 0 world0)))
        = projr (run ext0 [OQuit 0 ''bye''] (NewClient 0 world0))"
proof -
  have nq: "\<not> hasQuit (clients (NewClient 0 (world0 :: string world)) 0)" by simp
  obtain w' where Q: "Quit ext0 0 ''bye'' (NewClient 0 world0) = Inr w'"
    using Quit_Inr_ex [OF nq, of ext0 "''bye''"] by auto
  have r: "run ext0 [OQuit 0 ''bye''] (NewClient 0 world0) = Inr w'"
    by (simp add: Q)
  have np: "\<not> is_pending LoginT 0 w'"
    by (simp add: is_pending_def Quit_clients [OF Q nq] Stop_def)
  have c: "commands w' = []"
    using Quit_fields [OF Q] by (simp add: world0_def)
  show ?thesis
    unfolding r by (simp add: np c fire_not_pending [OF np])
qed

end
